theory Spec2Isabelle
  imports Complex_Main "HOL-Library.AList"
begin

section \<open>Values of the program\<close>

text \<open>
  The monitor of \<^verbatim>\<open>main.py\<close> works on decoded JSON. A decoded value is one of the
  Python values \<^verbatim>\<open>json.loads\<close> produces: \<^verbatim>\<open>None\<close>, a bool, a number, a string, a list
  or a dict. Numbers (Python \<^verbatim>\<open>int\<close> and \<^verbatim>\<open>float\<close>) are taken as exact rationals; a dict is
  the list of its items, read with \<open>map_of\<close>.
\<close>

datatype json =
    JNull
  | JBool bool
  | JNum rat
  | JStr string
  | JArr "json list"
  | JObj "(string \<times> json) list"

text \<open>The exceptions the code can raise, as values.\<close>

datatype py_error =
    JSONDecodeError
  | KeyError
  | TypeError
  | AttributeError
  | ZeroDivisionError
  | OverflowError

text \<open>
  A dict key is a hashable value. Lists and dicts are unhashable (\<^verbatim>\<open>TypeError\<close>);
  \<^verbatim>\<open>True\<close> and \<^verbatim>\<open>False\<close> are the same keys as \<^verbatim>\<open>1\<close> and \<^verbatim>\<open>0\<close>.
\<close>

datatype key = KNone | KNum rat | KStr string

fun hash_key :: "json \<Rightarrow> py_error + key" where
  "hash_key JNull = Inr KNone"
| "hash_key (JBool b) = Inr (KNum (if b then 1 else 0))"
| "hash_key (JNum r) = Inr (KNum r)"
| "hash_key (JStr s) = Inr (KStr s)"
| "hash_key (JArr xs) = Inl TypeError"
| "hash_key (JObj kvs) = Inl TypeError"

text \<open>
  An operand of \<^verbatim>\<open>-\<close>, \<^verbatim>\<open>/\<close>, \<^verbatim>\<open>+\<close> with a number on the other side: numbers and bools
  (\<^verbatim>\<open>bool\<close> is a subclass of \<^verbatim>\<open>int\<close>) are accepted, anything else raises \<^verbatim>\<open>TypeError\<close>.
\<close>

fun number :: "json \<Rightarrow> py_error + rat" where
  "number (JNum r) = Inr r"
| "number (JBool b) = Inr (if b then 1 else 0)"
| "number JNull = Inl TypeError"
| "number (JStr s) = Inl TypeError"
| "number (JArr xs) = Inl TypeError"
| "number (JObj kvs) = Inl TypeError"

text \<open>\<^verbatim>\<open>d[k]\<close> on a dict: \<^verbatim>\<open>KeyError\<close> when the key is missing.\<close>

definition getitem :: "(string \<times> json) list \<Rightarrow> string \<Rightarrow> py_error + json" where
  "getitem d k = (case map_of d k of None \<Rightarrow> Inl KeyError | Some v \<Rightarrow> Inr v)"

section \<open>Global state\<close>

text \<open>
  The three module-level dicts, and the lines printed so far. A Python dict keeps
  insertion order and assignment to a present key replaces the value in place, which is
  \<open>AList.update\<close> on the list of items.
\<close>

record gainer =
  price :: rat
  pct_change :: rat
  volume :: rat

datatype line =
    Fetching
  | ErrorFetching int
  | Fetched nat
  | Connected
  | Alert json rat rat rat
  | ConnectionLost
  | Unexpected py_error
  | ShuttingDown

record state =
  yesterday_close :: "(key \<times> json) list"
  running_volume :: "(key \<times> rat) list"
  gainers :: "(key \<times> gainer) list"
  console :: "line list"

definition initial :: state where
  "initial = \<lparr>yesterday_close = [], running_volume = [], gainers = [], console = []\<rparr>"

text \<open>\<^verbatim>\<open>running_volume.get(ticker, 0)\<close>\<close>

definition get0 :: "(key \<times> rat) list \<Rightarrow> key \<Rightarrow> rat" where
  "get0 d k = (case map_of d k of None \<Rightarrow> 0 | Some x \<Rightarrow> x)"

section \<open>The stream loop\<close>

text \<open>
  Lines 68 to 78 of \<^verbatim>\<open>stream\<close>, with the percent change already computed: the volume
  of the bar is added to the running volume of the ticker, then the three thresholds are
  tested, and when all hold the record of the ticker is stored and the alert printed.
\<close>

definition accumulate_and_test :: "state \<Rightarrow> json \<Rightarrow> key \<Rightarrow> rat \<Rightarrow> rat \<Rightarrow> rat \<Rightarrow> state" where
  "accumulate_and_test s ticker k pct c v =
     (let rv = get0 (running_volume s) k + v;
          s1 = s\<lparr>running_volume := AList.update k rv (running_volume s)\<rparr>
      in if pct \<ge> 5 \<and> rv \<ge> 2000000 \<and> c \<ge> 3
         then s1\<lparr>gainers := AList.update k
                       \<lparr>price = c, pct_change = pct, volume = rv\<rparr> (gainers s1),
                 console := console s1 @ [Alert ticker pct c rv]\<rparr>
         else s1)"

text \<open>
  Lines 66 to 78: the body run for a ticker that has a reference price. The percent
  change is computed first (operands that are not numbers raise \<^verbatim>\<open>TypeError\<close>, a zero
  reference price raises \<^verbatim>\<open>ZeroDivisionError\<close>); a volume that is not a number raises
  \<^verbatim>\<open>TypeError\<close> when it is added.
\<close>

definition evaluate :: "state \<Rightarrow> json \<Rightarrow> key \<Rightarrow> json \<Rightarrow> json \<Rightarrow> json \<Rightarrow> py_error + state" where
  "evaluate s ticker k prev_close close_price vol =
     (case number close_price of Inl e \<Rightarrow> Inl e | Inr c \<Rightarrow>
      case number prev_close of Inl e \<Rightarrow> Inl e | Inr p \<Rightarrow>
      if p = 0 then Inl ZeroDivisionError
      else
        let pct = ((c - p) / p) * 100 in
        case number vol of Inl e \<Rightarrow> Inl e | Inr v \<Rightarrow>
        Inr (accumulate_and_test s ticker k pct c v))"

text \<open>
  Lines 60 to 65: one element of a message. \<^verbatim>\<open>event.get\<close> exists on dicts only; an
  event whose \<^verbatim>\<open>"ev"\<close> is not \<^verbatim>\<open>"AM"\<close> is passed over; the three fields are read before
  the ticker is looked up in \<^verbatim>\<open>yesterday_close\<close>.
\<close>

definition process_event :: "state \<Rightarrow> json \<Rightarrow> py_error + state" where
  "process_event s event =
     (case event of
        JObj kvs \<Rightarrow>
          if map_of kvs ''ev'' = Some (JStr ''AM'') then
            (case getitem kvs ''T'' of Inl e \<Rightarrow> Inl e | Inr ticker \<Rightarrow>
             case getitem kvs ''c'' of Inl e \<Rightarrow> Inl e | Inr close_price \<Rightarrow>
             case getitem kvs ''v'' of Inl e \<Rightarrow> Inl e | Inr vol \<Rightarrow>
             case hash_key ticker of Inl e \<Rightarrow> Inl e | Inr k \<Rightarrow>
             case map_of (yesterday_close s) k of
               None \<Rightarrow> Inr s
             | Some prev_close \<Rightarrow> evaluate s ticker k prev_close close_price vol)
          else Inr s
      | _ \<Rightarrow> Inl AttributeError)"

text \<open>
  A well-formed bar: an \<^verbatim>\<open>"AM"\<close> event with a hashable ticker and numeric close and
  volume. \<open>bar_of\<close> reads the ticker (raw and as a key), the close and the volume.
\<close>

definition bar_of :: "json \<Rightarrow> (json \<times> key \<times> rat \<times> rat) option" where
  "bar_of event =
     (case event of
        JObj kvs \<Rightarrow>
          if map_of kvs ''ev'' = Some (JStr ''AM'') then
            (case (map_of kvs ''T'', map_of kvs ''c'', map_of kvs ''v'') of
               (Some ticker, Some close_price, Some vol) \<Rightarrow>
                 (case (hash_key ticker, number close_price, number vol) of
                    (Inr k, Inr c, Inr v) \<Rightarrow> Some (ticker, k, c, v)
                  | _ \<Rightarrow> None)
             | _ \<Rightarrow> None)
          else None
      | _ \<Rightarrow> None)"

text \<open>
  \<^verbatim>\<open>for event in data\<close>: a list gives its elements, a dict its keys, a string its
  characters; \<^verbatim>\<open>None\<close>, bools and numbers are not iterable.
\<close>

fun iterate :: "json \<Rightarrow> py_error + json list" where
  "iterate (JArr xs) = Inr xs"
| "iterate (JObj kvs) = Inr (map JStr (remdups (map fst kvs)))"
| "iterate (JStr s) = Inr (map (\<lambda>c. JStr [c]) s)"
| "iterate JNull = Inl TypeError"
| "iterate (JBool b) = Inl TypeError"
| "iterate (JNum r) = Inl TypeError"

text \<open>
  The inner \<^verbatim>\<open>for\<close> loop. An exception leaves the loop with the state as the events
  before it made it.
\<close>

fun process_events :: "state \<Rightarrow> json list \<Rightarrow> state \<times> py_error option" where
  "process_events s [] = (s, None)"
| "process_events s (event # events) =
     (case process_event s event of
        Inl e \<Rightarrow> (s, Some e)
      | Inr s' \<Rightarrow> process_events s' events)"

text \<open>
  A message of the socket, as \<^verbatim>\<open>json.loads\<close> sees it: text that does not decode
  (\<^verbatim>\<open>JSONDecodeError\<close>), or the decoded value.
\<close>

datatype message = Undecodable | Decoded json

definition process_message :: "state \<Rightarrow> message \<Rightarrow> state \<times> py_error option" where
  "process_message s msg =
     (case msg of
        Undecodable \<Rightarrow> (s, Some JSONDecodeError)
      | Decoded data \<Rightarrow>
          (case iterate data of
             Inl e \<Rightarrow> (s, Some e)
           | Inr events \<Rightarrow> process_events s events))"

text \<open>
  \<^verbatim>\<open>async for msg in ws\<close>, inside the \<^verbatim>\<open>try\<close>: the messages received until the
  connection ends. The \<^verbatim>\<open>try\<close> encloses the whole loop, so an exception raised
  while a message is processed leaves the loop.
\<close>

fun stream_loop :: "state \<Rightarrow> message list \<Rightarrow> state \<times> py_error option" where
  "stream_loop s [] = (s, None)"
| "stream_loop s (msg # msgs) =
     (case process_message s msg of
        (s', Some e) \<Rightarrow> (s', Some e)
      | (s', None) \<Rightarrow> stream_loop s' msgs)"

text \<open>
  How the connection ends after its last message: closed normally (the iteration stops)
  or with \<^verbatim>\<open>ConnectionClosedError\<close> (raised by the iteration).
\<close>

datatype closing = ClosedOK | ClosedError

definition stream :: "state \<Rightarrow> message list \<Rightarrow> closing \<Rightarrow> state" where
  "stream s msgs how =
     (let s0 = s\<lparr>console := console s @ [Connected]\<rparr>
      in case stream_loop s0 msgs of
           (s', Some e) \<Rightarrow> s'\<lparr>console := console s' @ [Unexpected e]\<rparr>
         | (s', None) \<Rightarrow>
             (case how of
                ClosedOK \<Rightarrow> s'
              | ClosedError \<Rightarrow> s'\<lparr>console := console s' @ [ConnectionLost]\<rparr>))"

section \<open>Fetching the reference prices\<close>

text \<open>The HTTP response: its status and what \<^verbatim>\<open>response.json()\<close> gives.\<close>

record response =
  status :: int
  body :: message

text \<open>
  \<^verbatim>\<open>for stock in results: yesterday_close[stock["T"]] = stock["c"]\<close>. Only a dict can be
  indexed by a string; the key must be hashable.
\<close>

fun absorb :: "(key \<times> json) list \<Rightarrow> json list \<Rightarrow> (key \<times> json) list \<times> py_error option" where
  "absorb yc [] = (yc, None)"
| "absorb yc (stock # stocks) =
     (case stock of
        JObj kvs \<Rightarrow>
          (case getitem kvs ''c'' of Inl e \<Rightarrow> (yc, Some e) | Inr c \<Rightarrow>
           case getitem kvs ''T'' of Inl e \<Rightarrow> (yc, Some e) | Inr t \<Rightarrow>
           case hash_key t of Inl e \<Rightarrow> (yc, Some e) | Inr k \<Rightarrow>
           absorb (AList.update k c yc) stocks)
      | _ \<Rightarrow> (yc, Some TypeError))"

definition fetch_yesterday_closes :: "state \<Rightarrow> response \<Rightarrow> state \<times> py_error option" where
  "fetch_yesterday_closes s resp =
     (let s0 = s\<lparr>console := console s @ [Fetching]\<rparr>
      in if status resp \<noteq> 200
         then (s0\<lparr>console := console s0 @ [ErrorFetching (status resp)]\<rparr>, None)
         else
           (case body resp of
              Undecodable \<Rightarrow> (s0, Some JSONDecodeError)
            | Decoded data \<Rightarrow>
                (case data of
                   JObj kvs \<Rightarrow>
                     (case iterate (case map_of kvs ''results'' of
                                      None \<Rightarrow> JArr [] | Some r \<Rightarrow> r) of
                        Inl e \<Rightarrow> (s0, Some e)
                      | Inr stocks \<Rightarrow>
                          (case absorb (yesterday_close s0) stocks of
                             (yc, Some e) \<Rightarrow> (s0\<lparr>yesterday_close := yc\<rparr>, Some e)
                           | (yc, None) \<Rightarrow>
                               (s0\<lparr>yesterday_close := yc,
                                   console := console s0 @ [Fetched (length yc)]\<rparr>, None)))
                 | _ \<Rightarrow> (s0, Some AttributeError))))"

section \<open>Start-up\<close>

text \<open>
  \<^verbatim>\<open>main\<close>: fetch, then stream when \<^verbatim>\<open>yesterday_close\<close> is not empty. An exception of
  the fetch is not caught: it ends the process (second component).
\<close>

definition main :: "response \<Rightarrow> message list \<Rightarrow> closing \<Rightarrow> state \<times> py_error option" where
  "main resp msgs how =
     (case fetch_yesterday_closes initial resp of
        (s, Some e) \<Rightarrow> (s, Some e)
      | (s, None) \<Rightarrow>
          if yesterday_close s \<noteq> []
          then (stream s msgs how, None)
          else (s\<lparr>console := console s @ [ShuttingDown]\<rparr>, None))"

section \<open>The last trading day\<close>









text \<open>\<^verbatim>\<open>strftime('%Y-%m-%d')\<close>: the year on four digits, month and day on two.\<close>

fun zero_pad :: "nat \<Rightarrow> int \<Rightarrow> string" where
  "zero_pad 0 n = []"
| "zero_pad (Suc w) n = zero_pad w (n div 10) @ [''0123456789'' ! nat (n mod 10)]"



section \<open>Notions of the specification\<close>

text \<open>
  A message that "fails to parse or lacks expected fields": text that does not decode,
  or an array with an \<^verbatim>\<open>"AM"\<close> event in which \<^verbatim>\<open>"T"\<close>, \<^verbatim>\<open>"c"\<close> or \<^verbatim>\<open>"v"\<close> is missing.
\<close>

definition lacks_field :: "json \<Rightarrow> bool" where
  "lacks_field event =
     (case event of
        JObj kvs \<Rightarrow>
          map_of kvs ''ev'' = Some (JStr ''AM'') \<and>
          (map_of kvs ''T'' = None \<or> map_of kvs ''c'' = None \<or> map_of kvs ''v'' = None)
      | _ \<Rightarrow> False)"

definition malformed :: "message \<Rightarrow> bool" where
  "malformed msg =
     (case msg of
        Undecodable \<Rightarrow> True
      | Decoded data \<Rightarrow>
          (case data of JArr events \<Rightarrow> list_ex lacks_field events | _ \<Rightarrow> False))"

text \<open>The alerts printed for a ticker, among the lines of the console.\<close>

definition alerts_for :: "key \<Rightarrow> line list \<Rightarrow> line list" where
  "alerts_for k out =
     filter (\<lambda>l. case l of Alert ticker pct c rv \<Rightarrow> hash_key ticker = Inr k | _ \<Rightarrow> False) out"



text \<open>
  Every stored record satisfies the three thresholds, and its ticker is a key of
  \<^verbatim>\<open>yesterday_close\<close> and of \<^verbatim>\<open>running_volume\<close>.
\<close>

definition gainers_ok :: "state \<Rightarrow> bool" where
  "gainers_ok s =
     list_all (\<lambda>(k, g). pct_change g \<ge> 5 \<and> volume g \<ge> 2000000 \<and> price g \<ge> 3 \<and>
                 k \<in> set (map fst (yesterday_close s)) \<and>
                 k \<in> set (map fst (running_volume s)))
       (gainers s)"


section \<open>One event\<close>

lemma bar_ofD:
  assumes "bar_of event = Some (ticker, k, c, v)"
  obtains kvs close_price vol where "event = JObj kvs" "map_of kvs ''ev'' = Some (JStr ''AM'')"
    "map_of kvs ''T'' = Some ticker" "map_of kvs ''c'' = Some close_price" "map_of kvs ''v'' = Some vol"
    "hash_key ticker = Inr k" "number close_price = Inr c" "number vol = Inr v"
proof (cases event)
  case (JObj kvs)
  with assms have ev: "map_of kvs ''ev'' = Some (JStr ''AM'')"
    by (simp add: bar_of_def split: if_splits)
  from assms JObj ev obtain t cp vl where
    f: "map_of kvs ''T'' = Some t" "map_of kvs ''c'' = Some cp" "map_of kvs ''v'' = Some vl"
    by (simp add: bar_of_def split: option.splits)
  from assms JObj ev f have "hash_key t = Inr k \<and> number cp = Inr c \<and> number vl = Inr v \<and> t = ticker"
    by (simp add: bar_of_def split: sum.splits)
  with JObj ev f that show thesis by blast
qed (use assms in \<open>simp_all add: bar_of_def\<close>)

lemma process_event_bar:
  assumes "bar_of event = Some (ticker, k, c, v)"
  shows "process_event s event =
           (case map_of (yesterday_close s) k of
              None \<Rightarrow> Inr s
            | Some prev_close \<Rightarrow>
                (case number prev_close of
                   Inl e \<Rightarrow> Inl e
                 | Inr P \<Rightarrow>
                     if P = 0 then Inl ZeroDivisionError
                     else Inr (accumulate_and_test s ticker k ((c - P) / P * 100) c v)))"
proof -
  from assms obtain kvs close_price vol where e: "event = JObj kvs" "map_of kvs ''ev'' = Some (JStr ''AM'')"
    "map_of kvs ''T'' = Some ticker" "map_of kvs ''c'' = Some close_price" "map_of kvs ''v'' = Some vol"
    "hash_key ticker = Inr k" "number close_price = Inr c" "number vol = Inr v"
    by (rule bar_ofD)
  show ?thesis
    by (simp add: e process_event_def evaluate_def getitem_def split: option.split sum.split)
qed

lemma evaluate_Inr:
  assumes "evaluate s ticker k prev_close close_price vol = Inr s'"
  obtains P c v where "number prev_close = Inr P" "number close_price = Inr c" "number vol = Inr v"
    "P \<noteq> 0" "s' = accumulate_and_test s ticker k ((c - P) / P * 100) c v"
proof -
  from assms obtain c where c: "number close_price = Inr c"
    by (cases "number close_price") (simp_all add: evaluate_def)
  from assms c obtain P where P: "number prev_close = Inr P"
    by (cases "number prev_close") (simp_all add: evaluate_def)
  from assms c P have nz: "P \<noteq> 0"
    by (auto simp: evaluate_def)
  from assms c P nz obtain v where v: "number vol = Inr v"
    by (cases "number vol") (simp_all add: evaluate_def)
  from assms c P nz v have "s' = accumulate_and_test s ticker k ((c - P) / P * 100) c v"
    by (simp add: evaluate_def)
  with c P nz v that show thesis by blast
qed

lemma process_event_Inr:
  assumes "process_event s event = Inr s'"
  obtains (skip) "s' = s"
  | (bar) ticker k c v prev_close P where
      "bar_of event = Some (ticker, k, c, v)"
      "map_of (yesterday_close s) k = Some prev_close" "number prev_close = Inr P" "P \<noteq> 0"
      "s' = accumulate_and_test s ticker k ((c - P) / P * 100) c v"
proof (cases event)
  case (JObj kvs)
  show thesis
  proof (cases "map_of kvs ''ev'' = Some (JStr ''AM'')")
    case False
    with assms JObj have "s' = s" by (simp add: process_event_def)
    then show thesis by (rule skip)
  next
    case am: True
    from assms JObj am obtain ticker where t: "map_of kvs ''T'' = Some ticker"
      by (cases "map_of kvs ''T''") (simp_all add: process_event_def getitem_def)
    from assms JObj am t obtain close_price where c: "map_of kvs ''c'' = Some close_price"
      by (cases "map_of kvs ''c''") (simp_all add: process_event_def getitem_def)
    from assms JObj am t c obtain vol where v: "map_of kvs ''v'' = Some vol"
      by (cases "map_of kvs ''v''") (simp_all add: process_event_def getitem_def)
    from assms JObj am t c v obtain k where k: "hash_key ticker = Inr k"
      by (cases "hash_key ticker") (simp_all add: process_event_def getitem_def)
    show thesis
    proof (cases "map_of (yesterday_close s) k")
      case None
      with assms JObj am t c v k have "s' = s"
        by (simp add: process_event_def getitem_def)
      then show thesis by (rule skip)
    next
      case (Some prev_close)
      with assms JObj am t c v k have "evaluate s ticker k prev_close close_price vol = Inr s'"
        by (simp add: process_event_def getitem_def)
      then obtain P cc vv where n: "number prev_close = Inr P" "number close_price = Inr cc"
          "number vol = Inr vv" "P \<noteq> 0" "s' = accumulate_and_test s ticker k ((cc - P) / P * 100) cc vv"
        by (rule evaluate_Inr)
      have b: "bar_of event = Some (ticker, k, cc, vv)"
        by (simp add: bar_of_def JObj am t c v k n)
      show thesis by (rule bar [OF b Some n(1) n(4) n(5)])
    qed
  qed
qed (use assms in \<open>simp_all add: process_event_def\<close>)


lemma yesterday_close_accumulate [simp]:
  "yesterday_close (accumulate_and_test s ticker k pct c v) = yesterday_close s"
  by (simp add: accumulate_and_test_def Let_def)

lemma running_volume_accumulate [simp]:
  "running_volume (accumulate_and_test s ticker k pct c v) =
     AList.update k (get0 (running_volume s) k + v) (running_volume s)"
  by (simp add: accumulate_and_test_def Let_def)

lemma gainers_accumulate:
  "gainers (accumulate_and_test s ticker k pct c v) =
     (if pct \<ge> 5 \<and> get0 (running_volume s) k + v \<ge> 2000000 \<and> c \<ge> 3
      then AList.update k \<lparr>price = c, pct_change = pct, volume = get0 (running_volume s) k + v\<rparr>
             (gainers s)
      else gainers s)"
  by (simp add: accumulate_and_test_def Let_def)

lemma console_accumulate:
  "console (accumulate_and_test s ticker k pct c v) =
     (if pct \<ge> 5 \<and> get0 (running_volume s) k + v \<ge> 2000000 \<and> c \<ge> 3
      then console s @ [Alert ticker pct c (get0 (running_volume s) k + v)]
      else console s)"
  by (simp add: accumulate_and_test_def Let_def)

section \<open>Properties kept along the stream\<close>

text \<open>
  A property of the state that every successful event keeps is kept along the stream: an
  event that raises leaves the state as it was.
\<close>

lemma process_events_preserves:
  assumes step: "\<And>s event s'. I s \<Longrightarrow> process_event s event = Inr s' \<Longrightarrow> I s'"
  shows "I s \<Longrightarrow> process_events s events = (s', r) \<Longrightarrow> I s'"
proof (induction events arbitrary: s)
  case Nil
  then show ?case by simp
next
  case (Cons event events)
  show ?case
  proof (cases "process_event s event")
    case (Inl e)
    with Cons.prems show ?thesis by simp
  next
    case (Inr s1)
    with Cons.prems have "process_events s1 events = (s', r)" by simp
    moreover from Cons.prems(1) Inr have "I s1" by (rule step)
    ultimately show ?thesis by (rule Cons.IH [rotated])
  qed
qed

lemma process_message_preserves:
  assumes step: "\<And>s event s'. I s \<Longrightarrow> process_event s event = Inr s' \<Longrightarrow> I s'"
    and "I s" and "process_message s msg = (s', r)"
  shows "I s'"
proof (cases msg)
  case Undecodable
  with assms(2,3) show ?thesis by (simp add: process_message_def)
next
  case (Decoded data)
  show ?thesis
  proof (cases "iterate data")
    case (Inl e)
    with Decoded assms(2,3) show ?thesis by (simp add: process_message_def)
  next
    case (Inr events)
    with Decoded assms(3) have "process_events s events = (s', r)"
      by (simp add: process_message_def)
    with step assms(2) show ?thesis by (rule process_events_preserves)
  qed
qed

lemma stream_loop_preserves:
  assumes step: "\<And>s event s'. I s \<Longrightarrow> process_event s event = Inr s' \<Longrightarrow> I s'"
  shows "I s \<Longrightarrow> stream_loop s msgs = (s', r) \<Longrightarrow> I s'"
proof (induction msgs arbitrary: s)
  case Nil
  then show ?case by simp
next
  case (Cons msg msgs)
  obtain s1 r1 where m: "process_message s msg = (s1, r1)"
    by (cases "process_message s msg")
  with step Cons.prems(1) have i1: "I s1" by (rule process_message_preserves)
  show ?case
  proof (cases r1)
    case None
    with Cons.prems m have "stream_loop s1 msgs = (s', r)" by simp
    with i1 show ?thesis by (rule Cons.IH)
  next
    case (Some e)
    with Cons.prems m i1 show ?thesis by auto
  qed
qed

text \<open>What \<^verbatim>\<open>stream\<close> adds to the result of its loop is console output only.\<close>

lemma alerts_for_append [simp]:
  "alerts_for k (out @ out') = alerts_for k out @ alerts_for k out'"
  by (simp add: alerts_for_def)

lemma stream_cases:
  obtains s' r out where
    "stream_loop (s\<lparr>console := console s @ [Connected]\<rparr>) msgs = (s', r)"
    "stream s msgs how = s'\<lparr>console := out\<rparr>"
    "\<forall>k. alerts_for k out = alerts_for k (console s')"
proof -
  obtain s' r where l: "stream_loop (s\<lparr>console := console s @ [Connected]\<rparr>) msgs = (s', r)"
    by (cases "stream_loop (s\<lparr>console := console s @ [Connected]\<rparr>) msgs")
  have "\<exists>out. stream s msgs how = s'\<lparr>console := out\<rparr> \<and>
          (\<forall>k. alerts_for k out = alerts_for k (console s'))"
  proof (cases r)
    case None
    show ?thesis
    proof (cases how)
      case ClosedOK
      with l None have "stream s msgs how = s'\<lparr>console := console s'\<rparr>"
        by (simp add: stream_def)
      then show ?thesis by blast
    next
      case ClosedError
      with l None have "stream s msgs how = s'\<lparr>console := console s' @ [ConnectionLost]\<rparr>"
        by (simp add: stream_def)
      moreover have "\<forall>k. alerts_for k (console s' @ [ConnectionLost]) = alerts_for k (console s')"
        by (simp add: alerts_for_def)
      ultimately show ?thesis by blast
    qed
  next
    case (Some e)
    with l have "stream s msgs how = s'\<lparr>console := console s' @ [Unexpected e]\<rparr>"
      by (simp add: stream_def)
    moreover have "\<forall>k. alerts_for k (console s' @ [Unexpected e]) = alerts_for k (console s')"
      by (simp add: alerts_for_def)
    ultimately show ?thesis by blast
  qed
  with l that show thesis by blast
qed

section \<open>The reference prices\<close>

lemma process_event_yesterday_close:
  assumes "process_event s event = Inr s'"
  shows "yesterday_close s' = yesterday_close s"
  using assms by (cases rule: process_event_Inr) simp_all

text \<open>
  C9. The reference prices are not changed by the streaming phase: whatever messages
  the stream receives and however the connection ends, \<^verbatim>\<open>yesterday_close\<close> after
  \<^verbatim>\<open>stream\<close> is the list of items (keys, values and their order) it was before.
\<close>

theorem reference_prices_immutable:
  "yesterday_close (stream s msgs how) = yesterday_close s"
proof -
  obtain s' r out where
    l: "stream_loop (s\<lparr>console := console s @ [Connected]\<rparr>) msgs = (s', r)"
    and o: "stream s msgs how = s'\<lparr>console := out\<rparr>"
    by (rule stream_cases)
  have "yesterday_close s' = yesterday_close s"
  proof (rule stream_loop_preserves [where I = "\<lambda>x. yesterday_close x = yesterday_close s", OF _ _ l])
    show "yesterday_close s1 = yesterday_close s"
      if "yesterday_close s0 = yesterday_close s" "process_event s0 event = Inr s1"
      for s0 event s1
      using that process_event_yesterday_close [of s0 event s1] by simp
  qed simp
  with o show ?thesis by simp
qed

section \<open>The thresholds\<close>






section \<open>Messages that raise\<close>

lemma stream_loop_append:
  "stream_loop s before = (s1, None) \<Longrightarrow>
   stream_loop s (before @ msgs) = stream_loop s1 msgs"
proof (induction before arbitrary: s)
  case Nil
  then show ?case by simp
next
  case (Cons msg before)
  obtain s' r where m: "process_message s msg = (s', r)"
    by (cases "process_message s msg")
  show ?case
  proof (cases r)
    case None
    with Cons.prems m have "stream_loop s' before = (s1, None)" by simp
    then have "stream_loop s' (before @ msgs) = stream_loop s1 msgs" by (rule Cons.IH)
    with m None show ?thesis by simp
  next
    case (Some e)
    with Cons.prems m show ?thesis by simp
  qed
qed

lemma process_events_raises:
  assumes "\<And>s. \<exists>e. process_event s event = Inl e"
  shows "event \<in> set events \<Longrightarrow> \<exists>s' e. process_events s events = (s', Some e)"
proof (induction events arbitrary: s)
  case Nil
  then show ?case by simp
next
  case (Cons x events)
  show ?case
  proof (cases "process_event s x")
    case (Inl e)
    then show ?thesis by simp
  next
    case (Inr s1)
    with assms [of s] have "x \<noteq> event" by auto
    with Cons.prems have "event \<in> set events" by simp
    then have "\<exists>s' e. process_events s1 events = (s', Some e)" by (rule Cons.IH)
    with Inr show ?thesis by simp
  qed
qed

lemma lacks_field_raises:
  assumes "lacks_field event"
  shows "process_event s event = Inl KeyError"
proof (cases event)
  case (JObj kvs)
  with assms have am: "map_of kvs ''ev'' = Some (JStr ''AM'')"
    and miss: "map_of kvs ''T'' = None \<or> map_of kvs ''c'' = None \<or> map_of kvs ''v'' = None"
    by (simp_all add: lacks_field_def)
  from miss show ?thesis
    by (auto simp: JObj am process_event_def getitem_def split: option.split)
qed (use assms in \<open>simp_all add: lacks_field_def\<close>)

lemma malformed_raises:
  assumes "malformed msg"
  shows "\<exists>s' e. process_message s msg = (s', Some e)"
proof (cases msg)
  case Undecodable
  then show ?thesis by (simp add: process_message_def)
next
  case (Decoded data)
  with assms obtain events where d: "data = JArr events" and ex: "list_ex lacks_field events"
    by (cases data) (simp_all add: malformed_def)
  from ex obtain event where "event \<in> set events" "lacks_field event"
    by (auto simp: list_ex_iff)
  then have "\<exists>s' e. process_events s events = (s', Some e)"
    by (intro process_events_raises [of event]) (simp_all add: lacks_field_raises)
  with Decoded d show ?thesis by (simp add: process_message_def)
qed

text \<open>
  C3, as amended. When a message fails to decode, or holds an \<^verbatim>\<open>"AM"\<close> event that lacks
  \<^verbatim>\<open>"T"\<close>, \<^verbatim>\<open>"c"\<close> or \<^verbatim>\<open>"v"\<close>, the exception is caught and logged, and the loop ends
  there: \<^verbatim>\<open>stream\<close> returns the state reached when the exception was raised, with the
  line of the unexpected error printed, whatever messages follow.
\<close>

theorem malformed_message_ends_stream:
  assumes "stream_loop (s\<lparr>console := console s @ [Connected]\<rparr>) before = (s1, None)"
    and "malformed msg"
  shows "\<exists>s2 e. process_message s1 msg = (s2, Some e) \<and>
           stream s (before @ msg # rest) how = s2\<lparr>console := console s2 @ [Unexpected e]\<rparr>"
proof -
  from assms(2) obtain s2 e where m: "process_message s1 msg = (s2, Some e)"
    using malformed_raises by blast
  from assms(1) have "stream_loop (s\<lparr>console := console s @ [Connected]\<rparr>) (before @ msg # rest)
      = stream_loop s1 (msg # rest)"
    by (rule stream_loop_append)
  with m have "stream s (before @ msg # rest) how = s2\<lparr>console := console s2 @ [Unexpected e]\<rparr>"
    by (simp add: stream_def)
  with m show ?thesis by blast
qed


theorem malformed_message_ends_stream_witness:
  "malformed (Decoded (JArr [JObj [(''ev'', JStr ''AM''), (''T'', JStr ''AAPL'')]])) \<and>
   (\<exists>s2 e.
      process_message
        \<lparr>yesterday_close = [(KStr ''AAPL'', JNum 100)], running_volume = [(KStr ''AAPL'', 1500000)],
         gainers = [], console = [Connected]\<rparr>
        (Decoded (JArr [JObj [(''ev'', JStr ''AM''), (''T'', JStr ''AAPL'')]])) = (s2, Some e) \<and>
      stream
        \<lparr>yesterday_close = [(KStr ''AAPL'', JNum 100)], running_volume = [], gainers = [], console = []\<rparr>
        ([Decoded (JArr [JObj [(''ev'', JStr ''AM''), (''T'', JStr ''AAPL''), (''c'', JNum 106),
                               (''v'', JNum 1500000)]])]
         @ Decoded (JArr [JObj [(''ev'', JStr ''AM''), (''T'', JStr ''AAPL'')]])
         # [Decoded (JArr [JObj [(''ev'', JStr ''AM''), (''T'', JStr ''AAPL''), (''c'', JNum 107),
                                 (''v'', JNum 600000)]])])
        ClosedOK = s2\<lparr>console := console s2 @ [Unexpected e]\<rparr>)"
proof -
  let ?s = "\<lparr>yesterday_close = [(KStr ''AAPL'', JNum 100)], running_volume = [], gainers = [],
             console = []\<rparr>"
  let ?s1 = "\<lparr>yesterday_close = [(KStr ''AAPL'', JNum 100)],
              running_volume = [(KStr ''AAPL'', 1500000)], gainers = [], console = [Connected]\<rparr>"
  let ?before = "[Decoded (JArr [JObj [(''ev'', JStr ''AM''), (''T'', JStr ''AAPL''),
                                       (''c'', JNum 106), (''v'', JNum 1500000)]])]"
  let ?msg = "Decoded (JArr [JObj [(''ev'', JStr ''AM''), (''T'', JStr ''AAPL'')]])"
  have l: "stream_loop (?s\<lparr>console := console ?s @ [Connected]\<rparr>) ?before = (?s1, None)"
    by (simp add: process_message_def process_event_def getitem_def evaluate_def
          accumulate_and_test_def get0_def)
  have m: "malformed ?msg"
    by (simp add: malformed_def lacks_field_def)
  from malformed_message_ends_stream [OF l m] m show ?thesis
    by blast
qed

text \<open>
  The claim as stated fails: after a message that does not decode, the next message, a
  bar that qualifies when it is processed, is not processed.
\<close>

theorem malformed_message_counterexample:
  "stream
     \<lparr>yesterday_close = [(KStr ''AAPL'', JNum 100)], running_volume = [], gainers = [], console = []\<rparr>
     [Undecodable,
      Decoded (JArr [JObj [(''ev'', JStr ''AM''), (''T'', JStr ''AAPL''), (''c'', JNum 107),
                            (''v'', JNum 2100000)]])]
     ClosedOK
     = \<lparr>yesterday_close = [(KStr ''AAPL'', JNum 100)], running_volume = [], gainers = [],
        console = [Connected, Unexpected JSONDecodeError]\<rparr> \<and>
   stream
     \<lparr>yesterday_close = [(KStr ''AAPL'', JNum 100)], running_volume = [], gainers = [], console = []\<rparr>
     [Decoded (JArr [JObj [(''ev'', JStr ''AM''), (''T'', JStr ''AAPL''), (''c'', JNum 107),
                            (''v'', JNum 2100000)]])]
     ClosedOK
     = \<lparr>yesterday_close = [(KStr ''AAPL'', JNum 100)],
        running_volume = [(KStr ''AAPL'', 2100000)],
        gainers = [(KStr ''AAPL'', \<lparr>price = 107, pct_change = 7, volume = 2100000\<rparr>)],
        console = [Connected, Alert (JStr ''AAPL'') 7 107 2100000]\<rparr>"
  by (simp add: stream_def process_message_def process_event_def getitem_def evaluate_def
        accumulate_and_test_def get0_def)

section \<open>Tickers without a reference price\<close>

lemma process_event_unknown:
  assumes "process_event s event = Inr s'" and "map_of (yesterday_close s) k = None"
  shows "map_of (running_volume s') k = map_of (running_volume s) k \<and>
         map_of (gainers s') k = map_of (gainers s) k \<and>
         alerts_for k (console s') = alerts_for k (console s)"
  using assms(1)
proof (cases rule: process_event_Inr)
  case skip
  then show ?thesis by simp
next
  case (bar ticker k' c v prev_close P)
  with assms(2) have ne: "k' \<noteq> k" by auto
  from bar(1) have h: "hash_key ticker = Inr k'" by (rule bar_ofD)
  from ne h show ?thesis
    by (simp add: bar(5) gainers_accumulate console_accumulate update_conv' alerts_for_def)
qed

text \<open>
  C4. For a ticker that is not a key of \<^verbatim>\<open>yesterday_close\<close>, a bar of the ticker leaves
  the whole state as it was, whatever its close and volume; and over any messages of
  the stream, the entries of the ticker in \<^verbatim>\<open>running_volume\<close> and in \<^verbatim>\<open>gainers\<close> stay
  as they were and no alert is printed for it.
\<close>

theorem unknown_ticker_skipped:
  assumes "map_of (yesterday_close s) k = None"
  shows "(\<forall>event ticker c v. bar_of event = Some (ticker, k, c, v) \<longrightarrow> process_event s event = Inr s) \<and>
         map_of (running_volume (stream s msgs how)) k = map_of (running_volume s) k \<and>
         map_of (gainers (stream s msgs how)) k = map_of (gainers s) k \<and>
         alerts_for k (console (stream s msgs how)) = alerts_for k (console s)"
proof -
  have first: "process_event s event = Inr s" if "bar_of event = Some (ticker, k, c, v)"
    for event ticker c v
    using assms by (simp add: process_event_bar [OF that])
  let ?s0 = "s\<lparr>console := console s @ [Connected]\<rparr>"
  let ?I = "\<lambda>x. yesterday_close x = yesterday_close s \<and>
                 map_of (running_volume x) k = map_of (running_volume s) k \<and>
                 map_of (gainers x) k = map_of (gainers s) k \<and>
                 alerts_for k (console x) = alerts_for k (console s)"
  obtain s' r out where
    l: "stream_loop ?s0 msgs = (s', r)"
    and o: "stream s msgs how = s'\<lparr>console := out\<rparr>"
    and a: "\<forall>k. alerts_for k out = alerts_for k (console s')"
    by (rule stream_cases [of s msgs how])
  have "?I s'"
  proof (rule stream_loop_preserves [where I = ?I, OF _ _ l])
    fix x event x'
    assume i: "?I x" and p: "process_event x event = Inr x'"
    from i assms have "map_of (yesterday_close x) k = None" by simp
    with p have "map_of (running_volume x') k = map_of (running_volume x) k \<and>
         map_of (gainers x') k = map_of (gainers x) k \<and>
         alerts_for k (console x') = alerts_for k (console x)"
      by (rule process_event_unknown)
    with i process_event_yesterday_close [OF p] show "?I x'" by simp
  next
    show "?I ?s0" by (simp add: alerts_for_def)
  qed
  with o a first show ?thesis by simp
qed

theorem unknown_ticker_skipped_witness:
  "map_of (yesterday_close
      \<lparr>yesterday_close = [(KStr ''AAPL'', JNum 100)], running_volume = [], gainers = [], console = []\<rparr>)
      (KStr ''NEW'') = None \<and>
   process_event
     \<lparr>yesterday_close = [(KStr ''AAPL'', JNum 100)], running_volume = [], gainers = [], console = []\<rparr>
     (JObj [(''ev'', JStr ''AM''), (''T'', JStr ''NEW''), (''c'', JNum 900), (''v'', JNum 90000000)])
     = Inr \<lparr>yesterday_close = [(KStr ''AAPL'', JNum 100)], running_volume = [], gainers = [],
            console = []\<rparr> \<and>
   map_of (gainers (stream
     \<lparr>yesterday_close = [(KStr ''AAPL'', JNum 100)], running_volume = [], gainers = [], console = []\<rparr>
     [Decoded (JArr [JObj [(''ev'', JStr ''AM''), (''T'', JStr ''NEW''), (''c'', JNum 900),
                            (''v'', JNum 90000000)]])] ClosedOK)) (KStr ''NEW'') = None \<and>
   map_of (running_volume (stream
     \<lparr>yesterday_close = [(KStr ''AAPL'', JNum 100)], running_volume = [], gainers = [], console = []\<rparr>
     [Decoded (JArr [JObj [(''ev'', JStr ''AM''), (''T'', JStr ''NEW''), (''c'', JNum 900),
                            (''v'', JNum 90000000)]])] ClosedOK)) (KStr ''NEW'') = None"
proof -
  let ?s = "\<lparr>yesterday_close = [(KStr ''AAPL'', JNum 100)], running_volume = [], gainers = [],
             console = []\<rparr>"
  let ?event = "JObj [(''ev'', JStr ''AM''), (''T'', JStr ''NEW''), (''c'', JNum 900),
                      (''v'', JNum 90000000)]"
  have u: "map_of (yesterday_close ?s) (KStr ''NEW'') = None" by simp
  have b: "bar_of ?event = Some (JStr ''NEW'', KStr ''NEW'', 900, 90000000)"
    by (simp add: bar_of_def)
  note t = unknown_ticker_skipped [OF u, of "[Decoded (JArr [?event])]" ClosedOK]
  from t b have "process_event ?s ?event = Inr ?s" by blast
  with t u show ?thesis by simp
qed

section \<open>The running volume\<close>









section \<open>The stored records\<close>

lemma process_event_distinct_gainers:
  assumes "process_event s event = Inr s'" and "distinct (map fst (gainers s))"
  shows "distinct (map fst (gainers s'))"
  using assms(1)
proof (cases rule: process_event_Inr)
  case skip
  with assms(2) show ?thesis by simp
next
  case (bar ticker k c v prev_close P)
  with assms(2) show ?thesis
    by (simp add: gainers_accumulate distinct_update)
qed

lemma filter_update_distinct:
  "distinct (map fst al) \<Longrightarrow> filter (\<lambda>kv. fst kv = k) (AList.update k x al) = [(k, x)]"
proof (induction al)
  case Nil
  then show ?case by simp
next
  case (Cons a al)
  obtain k' y where a: "a = (k', y)" by (cases a)
  show ?case
  proof (cases "k' = k")
    case True
    with Cons.prems a have "k \<notin> fst ` set al" by simp
    then have "filter (\<lambda>kv. fst kv = k) al = []"
      by (auto simp: filter_empty_conv)
    with a True show ?thesis by simp
  next
    case False
    with Cons a show ?thesis by simp
  qed
qed

lemma length_update_present:
  "map_of al k = Some y \<Longrightarrow> length (AList.update k x al) = length al"
  by (induction al) (auto split: if_splits)

text \<open>
  C6. In a state the stream reaches from an empty \<^verbatim>\<open>gainers\<close>, when a ticker that
  already has a record qualifies again, \<^verbatim>\<open>gainers\<close> afterwards holds exactly one item
  for the ticker, the record of this latest qualification, and has as many items as
  before: the record is overwritten, not appended.
\<close>

theorem requalification_overwrites:
  assumes "gainers s0 = []" and "stream_loop s0 msgs = (s, r)"
    and "map_of (gainers s) k = Some old"
    and "bar_of event = Some (ticker, k, C, v)"
    and "map_of (yesterday_close s) k = Some (JNum P)" and "P \<noteq> 0"
    and "pct = (C - P) / P * 100" and "V = get0 (running_volume s) k + v"
    and "pct \<ge> 5" and "V \<ge> 2000000" and "C \<ge> 3"
  shows "\<exists>s'. process_event s event = Inr s' \<and>
           filter (\<lambda>kv. fst kv = k) (gainers s') = [(k, \<lparr>price = C, pct_change = pct, volume = V\<rparr>)] \<and>
           length (gainers s') = length (gainers s)"
proof -
  have d: "distinct (map fst (gainers s))"
    by (rule stream_loop_preserves [where I = "\<lambda>x. distinct (map fst (gainers x))", OF _ _ assms(2)])
       (simp_all add: process_event_distinct_gainers assms(1))
  from assms(5,6) have "process_event s event = Inr (accumulate_and_test s ticker k pct C v)"
    by (simp add: process_event_bar [OF assms(4)] assms(7))
  moreover from assms(8-11) have "gainers (accumulate_and_test s ticker k pct C v)
      = AList.update k \<lparr>price = C, pct_change = pct, volume = V\<rparr> (gainers s)"
    by (simp add: gainers_accumulate)
  ultimately show ?thesis
    using d assms(3) by (simp add: filter_update_distinct length_update_present)
qed


theorem requalification_overwrites_witness:
  "stream_loop
     \<lparr>yesterday_close = [(KStr ''AAPL'', JNum 100)], running_volume = [], gainers = [], console = []\<rparr>
     [Decoded (JArr [JObj [(''ev'', JStr ''AM''), (''T'', JStr ''AAPL''), (''c'', JNum 107),
                            (''v'', JNum 2100000)]])]
     = (\<lparr>yesterday_close = [(KStr ''AAPL'', JNum 100)], running_volume = [(KStr ''AAPL'', 2100000)],
         gainers = [(KStr ''AAPL'', \<lparr>price = 107, pct_change = 7, volume = 2100000\<rparr>)],
         console = [Alert (JStr ''AAPL'') 7 107 2100000]\<rparr>, None) \<and>
   (\<exists>s'. process_event
       \<lparr>yesterday_close = [(KStr ''AAPL'', JNum 100)], running_volume = [(KStr ''AAPL'', 2100000)],
        gainers = [(KStr ''AAPL'', \<lparr>price = 107, pct_change = 7, volume = 2100000\<rparr>)],
        console = [Alert (JStr ''AAPL'') 7 107 2100000]\<rparr>
       (JObj [(''ev'', JStr ''AM''), (''T'', JStr ''AAPL''), (''c'', JNum 110), (''v'', JNum 100000)])
       = Inr s' \<and>
      filter (\<lambda>kv. fst kv = KStr ''AAPL'') (gainers s')
        = [(KStr ''AAPL'', \<lparr>price = 110, pct_change = 10, volume = 2200000\<rparr>)] \<and>
      length (gainers s') = 1)"
proof -
  let ?start = "\<lparr>yesterday_close = [(KStr ''AAPL'', JNum 100)], running_volume = [], gainers = [],
              console = []\<rparr>"
  let ?s = "\<lparr>yesterday_close = [(KStr ''AAPL'', JNum 100)],
             running_volume = [(KStr ''AAPL'', 2100000)],
             gainers = [(KStr ''AAPL'', \<lparr>price = 107, pct_change = 7, volume = 2100000\<rparr>)],
             console = [Alert (JStr ''AAPL'') 7 107 2100000]\<rparr>"
  let ?bar1 = "JObj [(''ev'', JStr ''AM''), (''T'', JStr ''AAPL''), (''c'', JNum 107),
                     (''v'', JNum 2100000)]"
  let ?bar2 = "JObj [(''ev'', JStr ''AM''), (''T'', JStr ''AAPL''), (''c'', JNum 110),
                     (''v'', JNum 100000)]"
  have e: "gainers ?start = []" by simp
  have l: "stream_loop ?start [Decoded (JArr [?bar1])] = (?s, None)"
    by (simp add: process_message_def process_event_def getitem_def evaluate_def
          accumulate_and_test_def get0_def)
  have g: "map_of (gainers ?s) (KStr ''AAPL'')
      = Some \<lparr>price = 107, pct_change = 7, volume = 2100000\<rparr>"
    by simp
  have b: "bar_of ?bar2 = Some (JStr ''AAPL'', KStr ''AAPL'', 110, 100000)"
    by (simp add: bar_of_def)
  have y: "map_of (yesterday_close ?s) (KStr ''AAPL'') = Some (JNum 100)" by simp
  have p: "(100::rat) \<noteq> 0" by simp
  have pct: "(10::rat) = (110 - 100) / 100 * 100" by simp
  have v: "(2200000::rat) = get0 (running_volume ?s) (KStr ''AAPL'') + 100000"
    by (simp add: get0_def)
  have t: "(10::rat) \<ge> 5" "(2200000::rat) \<ge> 2000000" "(110::rat) \<ge> 3" by simp_all
  from requalification_overwrites [OF e l g b y p pct v t] l show ?thesis
    by simp
qed

section \<open>The invariant of the stored records\<close>

lemma set_update_keys:
  "fst ` set (AList.update k x al) = insert k (fst ` set al)"
  by (simp add: dom_update)

lemma set_update_subset:
  "set (AList.update k x al) \<subseteq> insert (k, x) (set al)"
  by (induction al) auto

lemma process_event_gainers_ok:
  assumes "process_event s event = Inr s'" and "gainers_ok s"
  shows "gainers_ok s'"
  using assms(1)
proof (cases rule: process_event_Inr)
  case skip
  with assms(2) show ?thesis by simp
next
  case (bar ticker k c v prev_close P)
  let ?pct = "(c - P) / P * 100"
  let ?rv = "get0 (running_volume s) k + v"
  from bar(2) have ky: "k \<in> set (map fst (yesterday_close s))"
    by (auto dest: map_of_SomeD intro: rev_image_eqI)
  have old: "pct_change g \<ge> 5 \<and> volume g \<ge> 2000000 \<and> price g \<ge> 3 \<and>
             k' \<in> set (map fst (yesterday_close s')) \<and>
             k' \<in> set (map fst (running_volume s'))"
    if "(k', g) \<in> set (gainers s)" for k' g
    using that assms(2) by (auto simp: gainers_ok_def list_all_iff bar(5) set_update_keys)
  show ?thesis
  proof (cases "?pct \<ge> 5 \<and> ?rv \<ge> 2000000 \<and> c \<ge> 3")
    case False
    then have "gainers s' = gainers s" by (auto simp: bar(5) gainers_accumulate)
    with old show ?thesis by (auto simp: gainers_ok_def list_all_iff)
  next
    case True
    then have g: "gainers s' = AList.update k \<lparr>price = c, pct_change = ?pct, volume = ?rv\<rparr> (gainers s)"
      by (simp add: bar(5) gainers_accumulate)
    have new: "k \<in> set (map fst (yesterday_close s')) \<and> k \<in> set (map fst (running_volume s'))"
      using ky by (simp add: bar(5) set_update_keys)
    show ?thesis
      unfolding gainers_ok_def list_all_iff
    proof (intro ballI)
      fix x assume "x \<in> set (gainers s')"
      with g set_update_subset [of k "\<lparr>price = c, pct_change = ?pct, volume = ?rv\<rparr>" "gainers s"]
      have "x = (k, \<lparr>price = c, pct_change = ?pct, volume = ?rv\<rparr>) \<or> x \<in> set (gainers s)"
        by auto
      then show "case x of (k, g) \<Rightarrow> pct_change g \<ge> 5 \<and> volume g \<ge> 2000000 \<and> price g \<ge> 3 \<and>
                 k \<in> set (map fst (yesterday_close s')) \<and>
                 k \<in> set (map fst (running_volume s'))"
      proof
        assume "x = (k, \<lparr>price = c, pct_change = ?pct, volume = ?rv\<rparr>)"
        with True new show ?thesis by simp
      next
        assume "x \<in> set (gainers s)"
        with old [of "fst x" "snd x"] show ?thesis by (cases x) simp
      qed
    qed
  qed
qed

text \<open>
  C10. The property that every stored record satisfies the three thresholds and has its
  ticker among the keys of \<^verbatim>\<open>yesterday_close\<close> and of \<^verbatim>\<open>running_volume\<close> is kept by every
  event that is processed and by the whole of \<^verbatim>\<open>stream\<close>; it holds at process start,
  so it holds of the state \<^verbatim>\<open>main\<close> ends in.
\<close>

theorem gainers_invariant:
  assumes "gainers_ok s"
  shows "(\<forall>event s'. process_event s event = Inr s' \<longrightarrow> gainers_ok s') \<and>
         gainers_ok (stream s msgs how) \<and>
         gainers_ok (fst (main resp msgs how))"
proof -
  have step: "\<forall>event s'. process_event s event = Inr s' \<longrightarrow> gainers_ok s'"
    using assms by (blast intro: process_event_gainers_ok)
  have str: "gainers_ok (stream x msgs how)" if "gainers_ok x" for x
  proof -
    obtain s' r out where
      l: "stream_loop (x\<lparr>console := console x @ [Connected]\<rparr>) msgs = (s', r)"
      and o: "stream x msgs how = s'\<lparr>console := out\<rparr>"
      by (rule stream_cases [of x msgs how])
    from that have "gainers_ok (x\<lparr>console := console x @ [Connected]\<rparr>)"
      by (simp add: gainers_ok_def)
    with process_event_gainers_ok [rotated] have "gainers_ok s'"
      using l by (rule stream_loop_preserves [where I = gainers_ok])
    with o show ?thesis by (simp add: gainers_ok_def)
  qed
  have fetched: "gainers (fst (fetch_yesterday_closes initial resp)) = []"
    by (simp add: fetch_yesterday_closes_def initial_def Let_def
          split: message.split json.split sum.split prod.split option.split)
  have "gainers_ok (fst (main resp msgs how))"
  proof (cases "fetch_yesterday_closes initial resp")
    case (Pair s1 r1)
    with fetched have e: "gainers s1 = []" by simp
    then have ok: "gainers_ok s1" by (simp add: gainers_ok_def)
    from e have down: "gainers_ok (s1\<lparr>console := console s1 @ [ShuttingDown]\<rparr>)"
      by (simp add: gainers_ok_def)
    show ?thesis
    proof (cases r1)
      case None
      with Pair str [OF ok] down show ?thesis by (simp add: main_def)
    next
      case (Some e)
      with Pair ok show ?thesis by (simp add: main_def)
    qed
  qed
  with step str [OF assms] show ?thesis by simp
qed


theorem gainers_invariant_witness:
  "gainers_ok
     \<lparr>yesterday_close = [(KStr ''AAPL'', JNum 100)], running_volume = [(KStr ''AAPL'', 2100000)],
      gainers = [(KStr ''AAPL'', \<lparr>price = 107, pct_change = 7, volume = 2100000\<rparr>)],
      console = []\<rparr> \<and>
   gainers_ok (stream
     \<lparr>yesterday_close = [(KStr ''AAPL'', JNum 100)], running_volume = [(KStr ''AAPL'', 2100000)],
      gainers = [(KStr ''AAPL'', \<lparr>price = 107, pct_change = 7, volume = 2100000\<rparr>)],
      console = []\<rparr>
     [Decoded (JArr [JObj [(''ev'', JStr ''AM''), (''T'', JStr ''AAPL''), (''c'', JNum 104),
                            (''v'', JNum 50000)]])] ClosedOK) \<and>
   gainers (stream
     \<lparr>yesterday_close = [(KStr ''AAPL'', JNum 100)], running_volume = [(KStr ''AAPL'', 2100000)],
      gainers = [(KStr ''AAPL'', \<lparr>price = 107, pct_change = 7, volume = 2100000\<rparr>)],
      console = []\<rparr>
     [Decoded (JArr [JObj [(''ev'', JStr ''AM''), (''T'', JStr ''AAPL''), (''c'', JNum 104),
                            (''v'', JNum 50000)]])] ClosedOK)
     = [(KStr ''AAPL'', \<lparr>price = 107, pct_change = 7, volume = 2100000\<rparr>)]"
proof -
  let ?s = "\<lparr>yesterday_close = [(KStr ''AAPL'', JNum 100)],
             running_volume = [(KStr ''AAPL'', 2100000)],
             gainers = [(KStr ''AAPL'', \<lparr>price = 107, pct_change = 7, volume = 2100000\<rparr>)],
             console = []\<rparr>"
  let ?msgs = "[Decoded (JArr [JObj [(''ev'', JStr ''AM''), (''T'', JStr ''AAPL''),
                                     (''c'', JNum 104), (''v'', JNum 50000)]])]"
  have ok: "gainers_ok ?s"
    by (simp add: gainers_ok_def)
  have g: "gainers (stream ?s ?msgs ClosedOK)
      = [(KStr ''AAPL'', \<lparr>price = 107, pct_change = 7, volume = 2100000\<rparr>)]"
    by (simp add: stream_def process_message_def process_event_def getitem_def evaluate_def
          accumulate_and_test_def get0_def)
  from gainers_invariant [OF ok, of ?msgs ClosedOK] ok g show ?thesis
    by blast
qed

section \<open>Empty reference prices\<close>

text \<open>
  C8. When the status of the response is not 200, \<^verbatim>\<open>fetch_yesterday_closes\<close> prints the
  error and returns with \<^verbatim>\<open>yesterday_close\<close> as it was (empty at process start); the
  request is made once. Whenever the fetch returns with \<^verbatim>\<open>yesterday_close\<close> empty,
  \<^verbatim>\<open>main\<close> does not call \<^verbatim>\<open>stream\<close>: whatever the socket would deliver, it prints that
  the initial data could not be fetched and ends. (When the fetch raises instead of
  returning, the exception leaves \<^verbatim>\<open>main\<close>, and \<^verbatim>\<open>stream\<close> is not called either.)
\<close>

theorem failed_fetch_never_streams:
  "(status resp \<noteq> 200 \<longrightarrow>
      fetch_yesterday_closes s resp =
        (s\<lparr>console := console s @ [Fetching, ErrorFetching (status resp)]\<rparr>, None) \<and>
      main resp msgs how =
        (initial\<lparr>console := [Fetching, ErrorFetching (status resp), ShuttingDown]\<rparr>, None)) \<and>
   (\<forall>s1. fetch_yesterday_closes initial resp = (s1, None) \<and> yesterday_close s1 = [] \<longrightarrow>
      main resp msgs how = (s1\<lparr>console := console s1 @ [ShuttingDown]\<rparr>, None)) \<and>
   (\<forall>s1 e. fetch_yesterday_closes initial resp = (s1, Some e) \<longrightarrow>
      main resp msgs how = (s1, Some e))"
  by (simp add: fetch_yesterday_closes_def main_def initial_def)

theorem failed_fetch_never_streams_witness:
  "status \<lparr>status = 403, body = Undecodable\<rparr> \<noteq> 200 \<and>
   main \<lparr>status = 403, body = Undecodable\<rparr>
     [Decoded (JArr [JObj [(''ev'', JStr ''AM''), (''T'', JStr ''AAPL''), (''c'', JNum 107),
                            (''v'', JNum 2100000)]])] ClosedOK
     = (\<lparr>yesterday_close = [], running_volume = [], gainers = [],
         console = [Fetching, ErrorFetching 403, ShuttingDown]\<rparr>, None) \<and>
   fetch_yesterday_closes initial \<lparr>status = 200, body = Decoded (JObj [])\<rparr>
     = (\<lparr>yesterday_close = [], running_volume = [], gainers = [],
         console = [Fetching, Fetched 0]\<rparr>, None) \<and>
   main \<lparr>status = 200, body = Decoded (JObj [])\<rparr>
     [Decoded (JArr [JObj [(''ev'', JStr ''AM''), (''T'', JStr ''AAPL''), (''c'', JNum 107),
                            (''v'', JNum 2100000)]])] ClosedOK
     = (\<lparr>yesterday_close = [], running_volume = [], gainers = [],
         console = [Fetching, Fetched 0, ShuttingDown]\<rparr>, None)"
proof -
  let ?msgs = "[Decoded (JArr [JObj [(''ev'', JStr ''AM''), (''T'', JStr ''AAPL''),
                                     (''c'', JNum 107), (''v'', JNum 2100000)]])]"
  let ?bad = "\<lparr>status = 403, body = Undecodable\<rparr>"
  let ?none = "\<lparr>status = 200, body = Decoded (JObj [])\<rparr>"
  have st: "status ?bad \<noteq> 200" by simp
  have f: "fetch_yesterday_closes initial ?none
      = (\<lparr>yesterday_close = [], running_volume = [], gainers = [],
          console = [Fetching, Fetched 0]\<rparr>, None)"
    by (simp add: fetch_yesterday_closes_def initial_def)
  from failed_fetch_never_streams [of ?bad initial ?msgs ClosedOK] st
  have a: "main ?bad ?msgs ClosedOK
      = (initial\<lparr>console := [Fetching, ErrorFetching 403, ShuttingDown]\<rparr>, None)"
    by simp
  from failed_fetch_never_streams [of ?none initial ?msgs ClosedOK] f
  have b: "main ?none ?msgs ClosedOK
      = (\<lparr>yesterday_close = [], running_volume = [], gainers = [],
          console = [Fetching, Fetched 0, ShuttingDown]\<rparr>, None)"
    by simp
  from st a f b show ?thesis by (simp add: initial_def)
qed

section \<open>Dates\<close>






lemma length_zero_pad [simp]: "length (zero_pad w n) = w"
  by (induction w arbitrary: n) simp_all







end
